theory Spec2Isabelle
  imports Main
begin

section \<open>The node store of \<open>JsiDomNode.h\<close>\<close>

text \<open>
  Nodes of the reconciler tree are heap objects that are shared through
  \<open>std::shared_ptr<JsiDomNode>\<close>, and two of the member functions of the class reach
  into another object (\<open>removeChild\<close> disposes the child it was given, which may even
  be the parent itself). The model therefore keeps an explicit store: a node lives at
  an address, a \<open>shared_ptr\<close> is an optional address (\<open>None\<close> is \<open>nullptr\<close>), and
  pointer comparison (\<open>node == child\<close>) is equality of optional addresses.
\<close>

type_synonym addr = nat

type_synonym node_ptr = "addr option"

text \<open>
  A \<open>std::function<void()>\<close> is opaque code of the dependency manager. It is modelled
  by a name; every invocation is recorded as an event of the store's trace, the
  externally observable effect of a node. An empty \<open>std::function\<close> (the one that
  compares equal to \<open>nullptr\<close>) is \<open>None\<close>.
\<close>

type_synonym callback = nat

text \<open>
  The private fields of the class, in the order of their declaration. The platform
  context is an opaque shared pointer that no member function of the file reads
  except its getter.
\<close>

record JsiDomNode =
  m_context :: "addr option"
  m_children :: "node_ptr list"
  m_propsContainer :: "addr option"
  m_type :: string
  m_disposeCallback :: "callback option"

datatype event =
  DisposeCallbackInvoked callback
  | DefinePropertiesInvoked addr addr

text \<open>
  The call \<open>_disposeCallback()\<close> either comes back to its caller or leaves it by an
  exception; the class has no \<open>try\<close> block, so the exception leaves the member
  function too. Which of the two happens is up to the code behind the callback, and
  may depend on what has been invoked before: the \<open>behaviour\<close> of the callbacks is a
  parameter of the model. A callback does its work outside the node store: it is not
  taken to call back into the nodes.
\<close>

datatype outcome = Returns | Throws

type_synonym behaviour = "callback \<Rightarrow> event list \<Rightarrow> outcome"

text \<open>
  The store. \<open>NodePropsContainer\<close> objects are heap objects too
  (\<open>std::make_shared<NodePropsContainer>()\<close>); their addresses are the positions of
  the list \<open>containers\<close>, so that a new container always gets an address that no
  other container has. The type \<open>'c\<close> is the content of a container: the class is
  declared in \<open>NodePropsContainer.h\<close>, and only its interface matters to this class.
\<close>

record 'c store =
  nodes :: "addr \<rightharpoonup> JsiDomNode"
  containers :: "'c list"
  trace :: "event list"

text \<open>
  Using a pointer that refers to no object is undefined behaviour in C++; the model
  makes it a failure value. \<open>NullDereference\<close> is \<open>p->f()\<close> with \<open>p == nullptr\<close>,
  \<open>NoSuchObject\<close> is the use of an address at which the store holds nothing (which
  shared ownership excludes in the program, and which keeps the model total).
  \<open>CallbackThrew\<close> is a member function left by the exception of a callback; what
  the function had written before stays written, so the failure carries the store.
\<close>

datatype 'c error = NullDereference | NoSuchObject | CallbackThrew "'c store"

definition andThen :: "'e + 'a \<Rightarrow> ('a \<Rightarrow> 'e + 'b) \<Rightarrow> 'e + 'b" where
  "andThen r f = (case r of Inl e \<Rightarrow> Inl e | Inr x \<Rightarrow> f x)"

text \<open>
  What the class takes from outside the file: the default constructor of
  \<open>NodePropsContainer\<close>, its member function \<open>setProps\<close>, and the virtual hook
  \<open>defineProperties\<close> that node implementations override (it is dispatched on the
  node, hence the address). \<open>'b\<close> is the type of a property batch, the
  \<open>jsi::Object\<close> handed to \<open>setProps\<close>.
\<close>

record ('c, 'b) externals =
  make_container :: "'c"
  defineProperties :: "addr \<Rightarrow> 'c \<Rightarrow> 'c"
  container_setProps :: "'c \<Rightarrow> 'b \<Rightarrow> 'c"

text \<open>The body of \<open>defineProperties\<close> in the base class is empty.\<close>

definition defineProperties_base :: "addr \<Rightarrow> 'c \<Rightarrow> 'c" where
  "defineProperties_base this container = container"

subsection \<open>Construction and getters\<close>

text \<open>
  The constructor initialises \<open>_type\<close> and \<open>_context\<close>; the vector, the container
  pointer and the callback are default-initialised (empty, null, empty).
\<close>

definition JsiDomNode_ctor :: "addr option \<Rightarrow> string \<Rightarrow> JsiDomNode" where
  "JsiDomNode_ctor ctx type =
     \<lparr>m_context = ctx, m_children = [], m_propsContainer = None,
      m_type = type, m_disposeCallback = None\<rparr>"

definition getType :: "addr \<Rightarrow> 'c store \<Rightarrow> 'c error + string" where
  "getType this s =
     (case nodes s this of None \<Rightarrow> Inl NoSuchObject | Some n \<Rightarrow> Inr (m_type n))"

definition getPropsContainer :: "addr \<Rightarrow> 'c store \<Rightarrow> 'c error + addr option" where
  "getPropsContainer this s =
     (case nodes s this of None \<Rightarrow> Inl NoSuchObject | Some n \<Rightarrow> Inr (m_propsContainer n))"

definition getChildren :: "addr \<Rightarrow> 'c store \<Rightarrow> 'c error + node_ptr list" where
  "getChildren this s =
     (case nodes s this of None \<Rightarrow> Inl NoSuchObject | Some n \<Rightarrow> Inr (m_children n))"

definition setDisposeCallback :: "addr \<Rightarrow> callback option \<Rightarrow> 'c store \<Rightarrow> 'c error + 'c store" where
  "setDisposeCallback this disposeCallback s =
     (case nodes s this of
        None \<Rightarrow> Inl NoSuchObject
      | Some n \<Rightarrow> Inr (s\<lparr>nodes := (nodes s)(this \<mapsto> n\<lparr>m_disposeCallback := disposeCallback\<rparr>)\<rparr>))"

subsection \<open>The vector operations the class uses\<close>

text \<open>
  \<open>std::find(first, last, value)\<close> returns the position of the first element equal to
  \<open>value\<close>, and \<open>last\<close> when there is none: here the index, and the length of the list.
\<close>

fun std_find :: "'a list \<Rightarrow> 'a \<Rightarrow> nat" where
  "std_find [] v = 0"
| "std_find (x # xs) v = (if x = v then 0 else Suc (std_find xs v))"

text \<open>\<open>vector::insert(position, value)\<close> puts \<open>value\<close> before the element at \<open>position\<close>.\<close>

definition vector_insert :: "'a list \<Rightarrow> nat \<Rightarrow> 'a \<Rightarrow> 'a list" where
  "vector_insert xs position v = take position xs @ v # drop position xs"

text \<open>
  \<open>v.erase(std::remove_if(v.begin(), v.end(), pred), v.end())\<close>: \<open>remove_if\<close> moves
  the elements that do not satisfy \<open>pred\<close> to the front, in their order, and \<open>erase\<close>
  cuts the rest off.
\<close>

fun erase_remove_if :: "('a \<Rightarrow> bool) \<Rightarrow> 'a list \<Rightarrow> 'a list" where
  "erase_remove_if pred [] = []"
| "erase_remove_if pred (x # xs) =
     (if pred x then erase_remove_if pred xs else x # erase_remove_if pred xs)"

subsection \<open>The member functions\<close>

text \<open>
  \<^verbatim>\<open>
  void dispose() {
    if (_disposeCallback != nullptr) {
      _disposeCallback();
      _disposeCallback = nullptr;
    }
  }
  \<close>
\<close>

text \<open>
  The statements in their order: the callback is invoked first, and the field is
  cleared only when the invocation has come back.
\<close>

definition dispose :: "behaviour \<Rightarrow> addr \<Rightarrow> 'c store \<Rightarrow> 'c error + 'c store" where
  "dispose B this s =
     (case nodes s this of
        None \<Rightarrow> Inl NoSuchObject
      | Some n \<Rightarrow>
          (case m_disposeCallback n of
             None \<Rightarrow> Inr s
           | Some cb \<Rightarrow>
               (let s1 = s\<lparr>trace := trace s @ [DisposeCallbackInvoked cb]\<rparr> in
                case B cb (trace s) of
                  Throws \<Rightarrow> Inl (CallbackThrew s1)
                | Returns \<Rightarrow>
                    Inr (s1\<lparr>nodes := (nodes s1)(this \<mapsto> n\<lparr>m_disposeCallback := None\<rparr>)\<rparr>))))"

text \<open>
  \<^verbatim>\<open>
  void setProps(jsi::Runtime &runtime, jsi::Object &&props) {
    if (_propsContainer == nullptr) {
      _propsContainer = std::make_shared<NodePropsContainer>();
      defineProperties(_propsContainer.get());
    }
    _propsContainer->setProps(runtime, std::move(props));
  };
  \<close>
  The first step is the body of the \<open>if\<close>, the second the call on the container.
\<close>

definition initPropsContainer :: "('c, 'b) externals \<Rightarrow> addr \<Rightarrow> JsiDomNode \<Rightarrow> 'c store \<Rightarrow> 'c store" where
  "initPropsContainer X this n s =
     (if m_propsContainer n = None then
        s\<lparr>nodes := (nodes s)(this \<mapsto> n\<lparr>m_propsContainer := Some (length (containers s))\<rparr>),
          containers := containers s @ [defineProperties X this (make_container X)],
          trace := trace s @ [DefinePropertiesInvoked this (length (containers s))]\<rparr>
      else s)"

definition setProps :: "('c, 'b) externals \<Rightarrow> addr \<Rightarrow> 'b \<Rightarrow> 'c store \<Rightarrow> 'c error + 'c store" where
  "setProps X this props s =
     (case nodes s this of
        None \<Rightarrow> Inl NoSuchObject
      | Some n \<Rightarrow>
          (let s1 = initPropsContainer X this n s in
           case nodes s1 this of
             None \<Rightarrow> Inl NoSuchObject
           | Some n1 \<Rightarrow>
               (case m_propsContainer n1 of
                  None \<Rightarrow> Inl NullDereference
                | Some p \<Rightarrow>
                    if p < length (containers s1)
                    then Inr (s1\<lparr>containers :=
                                  (containers s1)[p := container_setProps X (containers s1 ! p) props]\<rparr>)
                    else Inl NoSuchObject)))"

text \<open>
  \<^verbatim>\<open>
  virtual void addChild(std::shared_ptr<JsiDomNode> child) {
    _children.push_back(child);
  }
  \<close>
\<close>

definition addChild :: "addr \<Rightarrow> node_ptr \<Rightarrow> 'c store \<Rightarrow> 'c error + 'c store" where
  "addChild this child s =
     (case nodes s this of
        None \<Rightarrow> Inl NoSuchObject
      | Some n \<Rightarrow> Inr (s\<lparr>nodes := (nodes s)(this \<mapsto> n\<lparr>m_children := m_children n @ [child]\<rparr>)\<rparr>))"

text \<open>
  \<^verbatim>\<open>
  virtual void
  insertChildBefore(std::shared_ptr<JsiDomNode> child, std::shared_ptr<JsiDomNode> before) {
    auto position = std::find(_children.begin(), _children.end(), before);
    _children.insert(position, child);
  }
  \<close>
\<close>

definition insertChildBefore :: "addr \<Rightarrow> node_ptr \<Rightarrow> node_ptr \<Rightarrow> 'c store \<Rightarrow> 'c error + 'c store" where
  "insertChildBefore this child before s =
     (case nodes s this of
        None \<Rightarrow> Inl NoSuchObject
      | Some n \<Rightarrow>
          (let position = std_find (m_children n) before in
           Inr (s\<lparr>nodes := (nodes s)(this \<mapsto>
                  n\<lparr>m_children := vector_insert (m_children n) position child\<rparr>)\<rparr>)))"

text \<open>
  \<^verbatim>\<open>
  virtual void removeChild(std::shared_ptr<JsiDomNode> child) {
    _children.erase(std::remove_if(_children.begin(), _children.end(),
                                   [child](const auto &node) { return node == child; }),
                    _children.end());
    child->dispose();
  }
  \<close>
  The call \<open>child->dispose()\<close> runs on the store as the first statement left it, so
  that a parent removed from itself is handled as the program handles it, and an
  exception of the child's callback leaves \<open>removeChild\<close> with the children erased.
\<close>

definition removeChild :: "behaviour \<Rightarrow> addr \<Rightarrow> node_ptr \<Rightarrow> 'c store \<Rightarrow> 'c error + 'c store" where
  "removeChild B this child s =
     (case nodes s this of
        None \<Rightarrow> Inl NoSuchObject
      | Some n \<Rightarrow>
          (let s1 = s\<lparr>nodes := (nodes s)(this \<mapsto>
                      n\<lparr>m_children := erase_remove_if (\<lambda>node. node = child) (m_children n)\<rparr>)\<rparr>
           in case child of
                None \<Rightarrow> Inl NullDereference
              | Some c \<Rightarrow> dispose B c s1))"

subsection \<open>Repeated calls\<close>



text \<open>\<open>setProps\<close> called on the same node with each batch of a list, in order.\<close>

fun setProps_all :: "('c, 'b) externals \<Rightarrow> addr \<Rightarrow> 'b list \<Rightarrow> 'c store \<Rightarrow> 'c error + 'c store" where
  "setProps_all X this [] s = Inr s"
| "setProps_all X this (b # bs) s = andThen (setProps X this b s) (setProps_all X this bs)"

subsection \<open>Observations and example stores\<close>

text \<open>The children of a node of the store, when the node exists.\<close>

definition children_at :: "'c store \<Rightarrow> addr \<Rightarrow> node_ptr list option" where
  "children_at s a = map_option m_children (nodes s a)"

definition callback_at :: "'c store \<Rightarrow> addr \<Rightarrow> callback option option" where
  "callback_at s a = map_option m_disposeCallback (nodes s a)"

definition container_at :: "'c store \<Rightarrow> addr \<Rightarrow> addr option option" where
  "container_at s a = map_option m_propsContainer (nodes s a)"

text \<open>
  The callback registered on a node, if there is one, comes back when it is invoked
  after the events \<open>t\<close>.
\<close>

definition callback_returns :: "behaviour \<Rightarrow> JsiDomNode \<Rightarrow> event list \<Rightarrow> bool" where
  "callback_returns B n t =
     (case m_disposeCallback n of None \<Rightarrow> True | Some cb \<Rightarrow> B cb t = Returns)"



text \<open>Two behaviours for the examples: every callback comes back, every callback throws.\<close>

definition always_returns :: behaviour where
  "always_returns cb t = Returns"

definition always_throws :: behaviour where
  "always_throws cb t = Throws"

text \<open>
  Example stores. Node \<open>0\<close> is the parent \<open>A\<close>; \<open>B\<close>, \<open>C\<close> and \<open>D\<close> live at \<open>1\<close>,
  \<open>2\<close> and \<open>3\<close>, and the callback registered on the node at \<open>a\<close> is named \<open>10 + a\<close>.
\<close>

definition leaf :: "addr \<Rightarrow> JsiDomNode" where
  "leaf a = (JsiDomNode_ctor None ''skCircle'')\<lparr>m_disposeCallback := Some (10 + a)\<rparr>"

definition tree_with :: "node_ptr list \<Rightarrow> (string \<times> int) list store" where
  "tree_with cs =
     \<lparr>nodes = [0 \<mapsto> (JsiDomNode_ctor None ''skGroup'')\<lparr>m_children := cs\<rparr>,
               1 \<mapsto> leaf 1, 2 \<mapsto> leaf 2, 3 \<mapsto> leaf 3],
      containers = [], trace = []\<rparr>"

text \<open>
  An instance of what the class takes from outside, for the examples: a container is
  a list of name and value pairs, a batch is put in front of it, and the hook is the
  one of the base class.
\<close>

definition example_externals :: "((string \<times> int) list, (string \<times> int) list) externals" where
  "example_externals =
     \<lparr>make_container = [], defineProperties = defineProperties_base,
      container_setProps = (\<lambda>container props. props @ container)\<rparr>"

section \<open>Properties\<close>

subsection \<open>Facts about the vector operations\<close>

lemma erase_remove_if_filter: "erase_remove_if pred xs = filter (\<lambda>x. \<not> pred x) xs"
  by (induction xs) simp_all

lemma std_find_le: "std_find xs v \<le> length xs"
  by (induction xs) simp_all

lemma std_find_absent: "v \<notin> set xs \<Longrightarrow> std_find xs v = length xs"
  by (induction xs) auto

lemma std_find_first:
  "v \<notin> set ys \<Longrightarrow> std_find (ys @ v # zs) v = length ys"
  by (induction ys) auto

lemma vector_insert_end: "vector_insert xs (length xs) v = xs @ [v]"
  by (simp add: vector_insert_def)

lemma vector_insert_at: "vector_insert (ys @ zs) (length ys) v = ys @ v # zs"
  by (simp add: vector_insert_def)

subsection \<open>addChild\<close>

text \<open>
  C5. \<open>addChild\<close> on a node of the store succeeds, and afterwards the children of the
  node are the former children, in their order, followed by the new child; no other
  node, no container and no event of the trace changes.
\<close>

theorem addChild_appends:
  assumes "nodes s this = Some n"
  shows "\<exists>s'. addChild this child s = Inr s'
           \<and> children_at s' this = Some (m_children n @ [child])
           \<and> (\<forall>a. a \<noteq> this \<longrightarrow> nodes s' a = nodes s a)
           \<and> containers s' = containers s \<and> trace s' = trace s"
  using assms by (simp add: addChild_def children_at_def)

theorem addChild_appends_witness:
  "\<exists>s'. addChild 0 (Some 3) (tree_with [Some 1, Some 2]) = Inr s'
      \<and> children_at s' 0 = Some ([Some 1, Some 2] @ [Some 3])
      \<and> nodes s' 1 = nodes (tree_with [Some 1, Some 2]) 1
      \<and> containers s' = containers (tree_with [Some 1, Some 2])
      \<and> trace s' = trace (tree_with [Some 1, Some 2])"
proof -
  have parent: "nodes (tree_with [Some 1, Some 2]) 0
      = Some ((JsiDomNode_ctor None ''skGroup'')\<lparr>m_children := [Some 1, Some 2]\<rparr>)"
    by (simp add: tree_with_def)
  from addChild_appends [OF parent, of "Some 3"] obtain s' where
    "addChild 0 (Some 3) (tree_with [Some 1, Some 2]) = Inr s'"
    and "children_at s' 0 = Some ([Some 1, Some 2] @ [Some 3])"
    and "\<forall>a. a \<noteq> 0 \<longrightarrow> nodes s' a = nodes (tree_with [Some 1, Some 2]) a"
    and "containers s' = containers (tree_with [Some 1, Some 2])"
    and "trace s' = trace (tree_with [Some 1, Some 2])"
    by auto
  then show ?thesis
    by auto
qed

subsection \<open>dispose\<close>



text \<open>
  What one call of \<open>dispose\<close> does to the store, field by field, whether the callback
  comes back or throws; the field is cleared when it comes back.
\<close>

lemma dispose_result:
  assumes "nodes s this = Some n"
  shows "\<exists>s1 n1. (dispose B this s = Inr s1 \<or> dispose B this s = Inl (CallbackThrew s1))
           \<and> nodes s1 this = Some n1
           \<and> trace s1 = trace s @ (case m_disposeCallback n of None \<Rightarrow> []
                                    | Some cb \<Rightarrow> [DisposeCallbackInvoked cb])
           \<and> (\<forall>a. a \<noteq> this \<longrightarrow> nodes s1 a = nodes s a)
           \<and> m_children n1 = m_children n
           \<and> m_propsContainer n1 = m_propsContainer n
           \<and> containers s1 = containers s
           \<and> (callback_returns B n (trace s) \<longrightarrow>
                 dispose B this s = Inr s1 \<and> m_disposeCallback n1 = None)"
proof (cases "m_disposeCallback n")
  case None
  then show ?thesis
    using assms by (simp add: dispose_def callback_returns_def)
next
  case (Some cb)
  then show ?thesis
    using assms by (cases "B cb (trace s)") (simp_all add: dispose_def callback_returns_def)
qed




subsection \<open>removeChild\<close>

text \<open>
  What \<open>removeChild\<close> leaves for a handle to a node of the store: the children of the
  parent without the child, one invocation of the child's callback, and the callback
  cleared when it came back.
\<close>

lemma removeChild_result:
  assumes "nodes s this = Some n" and "nodes s c = Some m"
  shows "\<exists>s'. (removeChild B this (Some c) s = Inr s'
               \<or> removeChild B this (Some c) s = Inl (CallbackThrew s'))
           \<and> children_at s' this = Some (filter (\<lambda>node. node \<noteq> Some c) (m_children n))
           \<and> trace s' = trace s @ (case m_disposeCallback m of None \<Rightarrow> []
                                    | Some cb \<Rightarrow> [DisposeCallbackInvoked cb])
           \<and> (callback_returns B m (trace s) \<longrightarrow>
                 removeChild B this (Some c) s = Inr s' \<and> callback_at s' c = Some None)"
proof -
  let ?n' = "n\<lparr>m_children := erase_remove_if (\<lambda>node. node = Some c) (m_children n)\<rparr>"
  let ?s1 = "s\<lparr>nodes := (nodes s)(this \<mapsto> ?n')\<rparr>"
  let ?m1 = "if c = this then ?n' else m"
  have r: "removeChild B this (Some c) s = dispose B c ?s1"
    using assms(1) by (simp add: removeChild_def)
  have t: "nodes ?s1 this = Some ?n'"
    by simp
  have m1: "nodes ?s1 c = Some ?m1"
    using assms by simp
  have cb: "m_disposeCallback ?m1 = m_disposeCallback m"
    using assms by auto
  then have ret: "callback_returns B ?m1 (trace ?s1) = callback_returns B m (trace s)"
    by (simp add: callback_returns_def)
  from dispose_result [OF m1, of B] obtain s' n1 where
    d: "dispose B c ?s1 = Inr s' \<or> dispose B c ?s1 = Inl (CallbackThrew s')"
    and c: "nodes s' c = Some n1"
    and e: "trace s' = trace ?s1 @ (case m_disposeCallback ?m1 of None \<Rightarrow> []
                                    | Some cb \<Rightarrow> [DisposeCallbackInvoked cb])"
    and o: "\<forall>a. a \<noteq> c \<longrightarrow> nodes s' a = nodes ?s1 a"
    and k: "m_children n1 = m_children ?m1"
    and f: "callback_returns B ?m1 (trace ?s1) \<longrightarrow>
              dispose B c ?s1 = Inr s' \<and> m_disposeCallback n1 = None"
    by blast
  have "children_at s' this = Some (m_children ?n')"
  proof (cases "c = this")
    case True
    then show ?thesis using c k by (simp add: children_at_def)
  next
    case False
    then show ?thesis using o t by (simp add: children_at_def)
  qed
  then have "children_at s' this = Some (filter (\<lambda>node. node \<noteq> Some c) (m_children n))"
    by (simp add: erase_remove_if_filter)
  moreover have "trace s' = trace s @ (case m_disposeCallback m of None \<Rightarrow> []
                                    | Some cb \<Rightarrow> [DisposeCallbackInvoked cb])"
    using e cb by simp
  moreover have "callback_returns B m (trace s) \<longrightarrow>
      removeChild B this (Some c) s = Inr s' \<and> callback_at s' c = Some None"
    using f ret r c by (simp add: callback_at_def)
  ultimately show ?thesis
    using d r by auto
qed

text \<open>
  C2. \<open>removeChild\<close> with a handle to a node of the store disposes that node once,
  whether or not the handle is among the parent's children (nothing is assumed about
  the children list): the child's callback, when one is registered, is invoked exactly
  once, whether it comes back or throws; when it comes back (or none is registered)
  the call succeeds and the callback is cleared afterwards.
\<close>

theorem removeChild_disposes_child:
  assumes "nodes s this = Some n" and "nodes s c = Some m"
  shows "\<exists>s'. (removeChild B this (Some c) s = Inr s'
               \<or> removeChild B this (Some c) s = Inl (CallbackThrew s'))
           \<and> trace s' = trace s @ (case m_disposeCallback m of None \<Rightarrow> []
                                    | Some cb \<Rightarrow> [DisposeCallbackInvoked cb])
           \<and> (callback_returns B m (trace s) \<longrightarrow>
                 removeChild B this (Some c) s = Inr s' \<and> callback_at s' c = Some None)"
  using removeChild_result [OF assms, of B] by blast

text \<open>
  The witness is a miss: \<open>D\<close> is removed from \<open>A[B, C]\<close>, and its callback runs,
  once with a callback that comes back and once with one that throws.
\<close>

theorem removeChild_disposes_child_witness:
  "(\<exists>s'. removeChild always_returns 0 (Some 3) (tree_with [Some 1, Some 2]) = Inr s'
           \<and> trace s' = trace (tree_with [Some 1, Some 2]) @ [DisposeCallbackInvoked 13]
           \<and> callback_at s' 3 = Some None)
   \<and> (\<exists>s'. removeChild always_throws 0 (Some 3) (tree_with [Some 1, Some 2])
               = Inl (CallbackThrew s')
           \<and> trace s' = trace (tree_with [Some 1, Some 2]) @ [DisposeCallbackInvoked 13])"
proof -
  have parent: "nodes (tree_with [Some 1, Some 2]) 0
      = Some ((JsiDomNode_ctor None ''skGroup'')\<lparr>m_children := [Some 1, Some 2]\<rparr>)"
    and child: "nodes (tree_with [Some 1, Some 2]) 3 = Some (leaf 3)"
    by (simp_all add: tree_with_def)
  have "callback_returns always_returns (leaf 3) (trace (tree_with [Some 1, Some 2]))"
    by (simp add: callback_returns_def always_returns_def leaf_def)
  then have first: "\<exists>s'. removeChild always_returns 0 (Some 3) (tree_with [Some 1, Some 2]) = Inr s'
           \<and> trace s' = trace (tree_with [Some 1, Some 2]) @ [DisposeCallbackInvoked 13]
           \<and> callback_at s' 3 = Some None"
    using removeChild_disposes_child [OF parent child, of always_returns]
    by (auto simp add: leaf_def)
  have "isl (removeChild always_throws 0 (Some 3) (tree_with [Some 1, Some 2]))"
    by (simp add: removeChild_def dispose_def tree_with_def leaf_def always_throws_def)
  then have "\<exists>s'. removeChild always_throws 0 (Some 3) (tree_with [Some 1, Some 2])
               = Inl (CallbackThrew s')
           \<and> trace s' = trace (tree_with [Some 1, Some 2]) @ [DisposeCallbackInvoked 13]"
    using removeChild_disposes_child [OF parent child, of always_throws]
    by (auto simp add: leaf_def)
  with first show ?thesis
    by blast
qed

text \<open>
  C3 (as amended). When the children of the parent contain the child, possibly several
  times, \<open>removeChild\<close> removes every occurrence of it, not only the first; the
  other children stay, in their former order. This is so whether the callback of the
  child comes back or throws, and the call returns when it comes back.
\<close>

theorem removeChild_removes_every_occurrence:
  assumes "nodes s this = Some n" and "nodes s c = Some m"
    and "Some c \<in> set (m_children n)"
  shows "\<exists>s'. (removeChild B this (Some c) s = Inr s'
               \<or> removeChild B this (Some c) s = Inl (CallbackThrew s'))
           \<and> children_at s' this = Some (filter (\<lambda>node. node \<noteq> Some c) (m_children n))
           \<and> (callback_returns B m (trace s) \<longrightarrow> removeChild B this (Some c) s = Inr s')"
  using removeChild_result [OF assms(1,2), of B] by blast

theorem removeChild_removes_every_occurrence_witness:
  "\<exists>s'. removeChild always_returns 0 (Some 1) (tree_with [Some 1, Some 2, Some 1]) = Inr s'
           \<and> children_at s' 0 = Some [Some 2]"
proof -
  have parent: "nodes (tree_with [Some 1, Some 2, Some 1]) 0
      = Some ((JsiDomNode_ctor None ''skGroup'')\<lparr>m_children := [Some 1, Some 2, Some 1]\<rparr>)"
    and child: "nodes (tree_with [Some 1, Some 2, Some 1]) 1 = Some (leaf 1)"
    by (simp_all add: tree_with_def)
  have "callback_returns always_returns (leaf 1) (trace (tree_with [Some 1, Some 2, Some 1]))"
    by (simp add: callback_returns_def always_returns_def leaf_def)
  then show ?thesis
    using removeChild_removes_every_occurrence [OF parent child, of always_returns]
    by auto
qed

text \<open>
  C3 as stated fails: from the children \<open>[B, C, B]\<close> the call for \<open>B\<close> leaves
  \<open>[C]\<close>, where removing the first occurrence alone would leave \<open>[C, B]\<close>.
\<close>

theorem removeChild_first_occurrence_counterexample:
  "andThen (removeChild always_returns 0 (Some 1) (tree_with [Some 1, Some 2, Some 1]))
       (getChildren 0)
     = Inr [Some 2]
   \<and> andThen (removeChild always_returns 0 (Some 1) (tree_with [Some 1, Some 2, Some 1]))
       (getChildren 0)
     \<noteq> Inr (remove1 (Some 1) [Some 1, Some 2, Some 1])"
  by (simp add: andThen_def removeChild_def dispose_def getChildren_def tree_with_def leaf_def
      JsiDomNode_ctor_def always_returns_def)

subsection \<open>insertChildBefore\<close>

text \<open>
  C4. When the marker is among the children of the parent, \<open>insertChildBefore\<close>
  puts the child right before the first occurrence of the marker: the children split
  as \<open>ys @ before # zs\<close> with no marker in \<open>ys\<close>, and become
  \<open>ys @ child # before # zs\<close>.
\<close>

theorem insertChildBefore_present:
  assumes "nodes s this = Some n" and "before \<in> set (m_children n)"
  shows "\<exists>s' ys zs. insertChildBefore this child before s = Inr s'
           \<and> m_children n = ys @ before # zs \<and> before \<notin> set ys
           \<and> children_at s' this = Some (ys @ child # before # zs)"
proof -
  from assms(2) obtain ys zs where
    split: "m_children n = ys @ before # zs" and first: "before \<notin> set ys"
    by (auto dest: split_list_first)
  have "vector_insert (m_children n) (std_find (m_children n) before) child
          = ys @ child # before # zs"
    using vector_insert_at [of ys "before # zs" child] split first
    by (simp add: std_find_first)
  then have "insertChildBefore this child before s
               = Inr (s\<lparr>nodes := (nodes s)(this \<mapsto> n\<lparr>m_children := ys @ child # before # zs\<rparr>)\<rparr>)"
    using assms(1) by (simp add: insertChildBefore_def)
  moreover have "children_at
      (s\<lparr>nodes := (nodes s)(this \<mapsto> n\<lparr>m_children := ys @ child # before # zs\<rparr>)\<rparr>) this
               = Some (ys @ child # before # zs)"
    by (simp add: children_at_def)
  ultimately show ?thesis
    using split first by blast
qed

text \<open>The scenario of the specification: \<open>A[B, C]\<close>, \<open>D\<close> before \<open>C\<close>, gives \<open>[B, D, C]\<close>.\<close>

theorem insertChildBefore_present_witness:
  "andThen (insertChildBefore 0 (Some 3) (Some 2) (tree_with [Some 1, Some 2])) (getChildren 0)
     = Inr [Some 1, Some 3, Some 2]"
proof -
  from insertChildBefore_present [of "tree_with [Some 1, Some 2]" 0
      "(JsiDomNode_ctor None ''skGroup'')\<lparr>m_children := [Some 1, Some 2]\<rparr>" "Some 2" "Some 3"]
  obtain s' ys zs where
    r: "insertChildBefore 0 (Some 3) (Some 2) (tree_with [Some 1, Some 2]) = Inr s'"
    and split: "[Some 1, Some (2::nat)] = ys @ Some 2 # zs" and first: "Some 2 \<notin> set ys"
    and c: "children_at s' 0 = Some (ys @ Some 3 # Some 2 # zs)"
    by (auto simp add: tree_with_def)
  from split first have "ys = [Some 1] \<and> zs = []"
    by (cases ys; cases "tl ys") auto
  then show ?thesis
    using r c by (auto simp add: andThen_def getChildren_def children_at_def)
qed

text \<open>
  C9. When the marker is not among the children of the parent, \<open>insertChildBefore\<close>
  succeeds and appends the child at the end: it does what \<open>addChild\<close> does.
\<close>

theorem insertChildBefore_absent:
  assumes "nodes s this = Some n" and "before \<notin> set (m_children n)"
  shows "\<exists>s'. insertChildBefore this child before s = Inr s'
           \<and> children_at s' this = Some (m_children n @ [child])
           \<and> addChild this child s = Inr s'"
  using assms
  by (simp add: insertChildBefore_def addChild_def children_at_def std_find_absent
      vector_insert_end)

theorem insertChildBefore_absent_witness:
  "\<exists>s'. insertChildBefore 0 (Some 3) (Some 2) (tree_with [Some 1]) = Inr s'
           \<and> children_at s' 0 = Some ([Some 1] @ [Some 3])
           \<and> addChild 0 (Some 3) (tree_with [Some 1]) = Inr s'"
  using insertChildBefore_absent [of "tree_with [Some 1]" 0
      "(JsiDomNode_ctor None ''skGroup'')\<lparr>m_children := [Some 1]\<rparr>" "Some 2" "Some 3"]
  by (simp add: tree_with_def)

subsection \<open>A miss is not reported\<close>

text \<open>
  C8 as stated fails: removing \<open>D\<close> from \<open>A[B, C]\<close> and inserting before the
  marker \<open>C\<close> in \<open>A[B]\<close> both return normally; neither call yields a failure.
\<close>

theorem structural_miss_counterexample:
  "getChildren 0 (tree_with [Some 1, Some 2]) = Inr [Some 1, Some 2]
   \<and> Some 3 \<notin> set [Some 1, Some (2::nat)]
   \<and> \<not> isl (removeChild always_returns 0 (Some 3) (tree_with [Some 1, Some 2]))
   \<and> getChildren 0 (tree_with [Some 1]) = Inr [Some 1]
   \<and> Some 2 \<notin> set [Some (1::nat)]
   \<and> \<not> isl (insertChildBefore 0 (Some 3) (Some 2) (tree_with [Some 1]))"
  by (simp add: removeChild_def dispose_def insertChildBefore_def getChildren_def
      tree_with_def leaf_def JsiDomNode_ctor_def always_returns_def)

text \<open>On a miss nothing is erased, and \<open>removeChild\<close> is the call of \<open>dispose\<close> on the child.\<close>

lemma removeChild_miss:
  assumes "nodes s this = Some n" and "Some c \<notin> set (m_children n)"
  shows "removeChild B this (Some c) s = dispose B c s"
proof -
  have "filter (\<lambda>node. node \<noteq> Some c) (m_children n) = m_children n"
    using assms(2) by (auto simp add: filter_id_conv)
  then have "n\<lparr>m_children := erase_remove_if (\<lambda>node. node = Some c) (m_children n)\<rparr> = n"
    by (simp add: erase_remove_if_filter)
  moreover have "(nodes s)(this \<mapsto> n) = nodes s"
    using assms(1) by (simp add: fun_upd_idem)
  ultimately show ?thesis
    using assms(1) by (simp add: removeChild_def)
qed

text \<open>
  C8 (as amended). Neither operation makes a check, and neither reports anything about
  a miss. \<open>removeChild\<close> with a handle to a node that is not among the children does
  what \<open>dispose()\<close> on that node does and nothing else: the children stay as they
  were, the call returns normally when the callback of the node comes back (or none is
  registered), and the only exception that can leave it is the one of that callback.
  \<open>insertChildBefore\<close> with a marker that is not among the children returns normally
  and appends the child at the end.
\<close>

theorem structural_miss_is_silent:
  assumes "nodes s this = Some n" and "nodes s c = Some m"
  shows "(Some c \<notin> set (m_children n) \<longrightarrow>
            removeChild B this (Some c) s = dispose B c s
            \<and> (\<exists>s'. (removeChild B this (Some c) s = Inr s'
                      \<or> removeChild B this (Some c) s = Inl (CallbackThrew s'))
                 \<and> children_at s' this = Some (m_children n)
                 \<and> (callback_returns B m (trace s) \<longrightarrow>
                       removeChild B this (Some c) s = Inr s')))
       \<and> (before \<notin> set (m_children n) \<longrightarrow>
            (\<exists>s'. insertChildBefore this child before s = Inr s'
               \<and> children_at s' this = Some (m_children n @ [child])))"
proof (intro conjI impI)
  assume miss: "Some c \<notin> set (m_children n)"
  show "removeChild B this (Some c) s = dispose B c s"
    using assms(1) miss by (rule removeChild_miss)
  have "filter (\<lambda>node. node \<noteq> Some c) (m_children n) = m_children n"
    using miss by (auto simp add: filter_id_conv)
  then show "\<exists>s'. (removeChild B this (Some c) s = Inr s'
                      \<or> removeChild B this (Some c) s = Inl (CallbackThrew s'))
                 \<and> children_at s' this = Some (m_children n)
                 \<and> (callback_returns B m (trace s) \<longrightarrow>
                       removeChild B this (Some c) s = Inr s')"
    using removeChild_result [OF assms, of B] by auto
next
  assume "before \<notin> set (m_children n)"
  then show "\<exists>s'. insertChildBefore this child before s = Inr s'
               \<and> children_at s' this = Some (m_children n @ [child])"
    using assms(1)
    by (simp add: insertChildBefore_def children_at_def std_find_absent vector_insert_end)
qed

theorem structural_miss_is_silent_witness:
  "removeChild always_returns 0 (Some 3) (tree_with [Some 1, Some 2])
     = dispose always_returns 3 (tree_with [Some 1, Some 2])
   \<and> (\<exists>s'. removeChild always_returns 0 (Some 3) (tree_with [Some 1, Some 2]) = Inr s'
       \<and> children_at s' 0 = Some [Some 1, Some 2])
   \<and> (\<exists>s'. insertChildBefore 0 (Some 1) (Some 3) (tree_with [Some 1, Some 2]) = Inr s'
       \<and> children_at s' 0 = Some ([Some 1, Some 2] @ [Some 1]))"
proof -
  have parent: "nodes (tree_with [Some 1, Some 2]) 0
      = Some ((JsiDomNode_ctor None ''skGroup'')\<lparr>m_children := [Some 1, Some 2]\<rparr>)"
    and child: "nodes (tree_with [Some 1, Some 2]) 3 = Some (leaf 3)"
    by (simp_all add: tree_with_def)
  have ret: "callback_returns always_returns (leaf 3) (trace (tree_with [Some 1, Some 2]))"
    by (simp add: callback_returns_def always_returns_def leaf_def)
  have miss: "Some 3 \<notin> set (m_children
      ((JsiDomNode_ctor None ''skGroup'')\<lparr>m_children := [Some 1, Some 2]\<rparr>))"
    by simp
  note silent = structural_miss_is_silent [OF parent child, of always_returns "Some 3" "Some 1"]
  from silent miss have "removeChild always_returns 0 (Some 3) (tree_with [Some 1, Some 2])
      = dispose always_returns 3 (tree_with [Some 1, Some 2])"
    by blast
  moreover from silent miss ret obtain s1 where
    "removeChild always_returns 0 (Some 3) (tree_with [Some 1, Some 2]) = Inr s1"
    and "children_at s1 0 = Some (m_children
      ((JsiDomNode_ctor None ''skGroup'')\<lparr>m_children := [Some 1, Some 2]\<rparr>))"
    by blast
  moreover from silent miss obtain s2 where
    "insertChildBefore 0 (Some 1) (Some 3) (tree_with [Some 1, Some 2]) = Inr s2"
    and "children_at s2 0 = Some (m_children
      ((JsiDomNode_ctor None ''skGroup'')\<lparr>m_children := [Some 1, Some 2]\<rparr>) @ [Some 1])"
    by blast
  ultimately show ?thesis
    by simp
qed

subsection \<open>addChild makes no check\<close>

text \<open>
  C10. \<open>addChild\<close> on a node of the store succeeds for every child pointer, member
  or not, and appends it. Adding the same child twice to one parent gives it two
  entries, and adding it to two parents puts it into the children of both.
\<close>

theorem addChild_unconditional:
  assumes "nodes s p = Some n" and "nodes s q = Some m" and "p \<noteq> q"
  shows "(\<exists>s1. addChild p child s = Inr s1
            \<and> children_at s1 p = Some (m_children n @ [child]))
       \<and> (\<exists>s2. andThen (addChild p child s) (addChild p child) = Inr s2
            \<and> children_at s2 p = Some (m_children n @ [child, child]))
       \<and> (\<exists>s3. andThen (addChild p child s) (addChild q child) = Inr s3
            \<and> children_at s3 p = Some (m_children n @ [child])
            \<and> children_at s3 q = Some (m_children m @ [child]))"
  using assms by (simp add: addChild_def andThen_def children_at_def)

theorem addChild_unconditional_witness:
  "(\<exists>s1. addChild 0 (Some 2) (tree_with [Some 1, Some 2]) = Inr s1
            \<and> children_at s1 0 = Some ([Some 1, Some 2] @ [Some 2]))
       \<and> (\<exists>s2. andThen (addChild 0 (Some 2) (tree_with [Some 1, Some 2])) (addChild 0 (Some 2)) = Inr s2
            \<and> children_at s2 0 = Some ([Some 1, Some 2] @ [Some 2, Some 2]))
       \<and> (\<exists>s3. andThen (addChild 0 (Some 2) (tree_with [Some 1, Some 2])) (addChild 1 (Some 2)) = Inr s3
            \<and> children_at s3 0 = Some ([Some 1, Some 2] @ [Some 2])
            \<and> children_at s3 1 = Some ([] @ [Some 2]))"
  using addChild_unconditional [of "tree_with [Some 1, Some 2]" 0
      "(JsiDomNode_ctor None ''skGroup'')\<lparr>m_children := [Some 1, Some 2]\<rparr>" 1 "leaf 1" "Some 2"]
  by (simp add: tree_with_def leaf_def JsiDomNode_ctor_def)

subsection \<open>setProps\<close>

text \<open>
  The two ways through \<open>setProps\<close>: on a node without a container (the first call)
  and on a node that has one.
\<close>

lemma setProps_first:
  assumes "nodes s this = Some n" and "m_propsContainer n = None"
  shows "setProps X this b s =
     Inr (s\<lparr>nodes := (nodes s)(this \<mapsto> n\<lparr>m_propsContainer := Some (length (containers s))\<rparr>),
            containers := containers s @
               [container_setProps X (defineProperties X this (make_container X)) b],
            trace := trace s @ [DefinePropertiesInvoked this (length (containers s))]\<rparr>)"
  using assms by (simp add: setProps_def initPropsContainer_def)

lemma setProps_later:
  assumes "nodes s this = Some n" and "m_propsContainer n = Some p"
    and "p < length (containers s)"
  shows "setProps X this b s =
     Inr (s\<lparr>containers := (containers s)[p := container_setProps X (containers s ! p) b]\<rparr>)"
  using assms by (simp add: setProps_def initPropsContainer_def)

lemma setProps_all_later:
  assumes "nodes s this = Some n" and "m_propsContainer n = Some p"
    and "p < length (containers s)"
  shows "setProps_all X this bs s =
     Inr (s\<lparr>containers := (containers s)[p := foldl (container_setProps X) (containers s ! p) bs]\<rparr>)"
  using assms
proof (induction bs arbitrary: s)
  case Nil
  then show ?case by simp
next
  case (Cons b bs)
  let ?s1 = "s\<lparr>containers := (containers s)[p := container_setProps X (containers s ! p) b]\<rparr>"
  have "setProps X this b s = Inr ?s1"
    using Cons.prems by (rule setProps_later)
  moreover have "setProps_all X this bs ?s1 =
     Inr (?s1\<lparr>containers := (containers ?s1)[p := foldl (container_setProps X) (containers ?s1 ! p) bs]\<rparr>)"
    using Cons.prems by (intro Cons.IH) simp_all
  ultimately show ?case
    using Cons.prems by (simp add: andThen_def)
qed

text \<open>
  C6. On a node that has no properties container yet, the first \<open>setProps\<close> creates
  the container (at a new address) and runs \<open>defineProperties\<close> on it. Whatever
  batches follow, the node keeps pointing to that same container, the trace has gained
  exactly the one \<open>defineProperties\<close> event of the first call, no further container
  has been created, and the container holds the batches applied in order to what the
  hook made of the new container.
\<close>

theorem setProps_container_created_once:
  assumes "nodes s this = Some n" and "m_propsContainer n = None"
  shows "\<exists>s1 s'. setProps X this b s = Inr s1
           \<and> container_at s1 this = Some (Some (length (containers s)))
           \<and> setProps_all X this (b # bs) s = Inr s'
           \<and> container_at s' this = container_at s1 this
           \<and> trace s' = trace s @ [DefinePropertiesInvoked this (length (containers s))]
           \<and> containers s' = containers s @
                [foldl (container_setProps X) (defineProperties X this (make_container X)) (b # bs)]"
proof -
  let ?p = "length (containers s)"
  let ?n1 = "n\<lparr>m_propsContainer := Some ?p\<rparr>"
  let ?s1 = "s\<lparr>nodes := (nodes s)(this \<mapsto> ?n1),
            containers := containers s @
               [container_setProps X (defineProperties X this (make_container X)) b],
            trace := trace s @ [DefinePropertiesInvoked this ?p]\<rparr>"
  have first: "setProps X this b s = Inr ?s1"
    using assms by (rule setProps_first)
  have rest: "setProps_all X this bs ?s1 =
     Inr (?s1\<lparr>containers := (containers ?s1)[?p := foldl (container_setProps X) (containers ?s1 ! ?p) bs]\<rparr>)"
    by (rule setProps_all_later [where n = ?n1]) simp_all
  have "setProps_all X this (b # bs) s =
     Inr (?s1\<lparr>containers := (containers ?s1)[?p := foldl (container_setProps X) (containers ?s1 ! ?p) bs]\<rparr>)"
    using first rest by (simp add: andThen_def)
  then show ?thesis
    using first by (simp add: container_at_def)
qed

theorem setProps_container_created_once_witness:
  "\<exists>s1 s'. setProps example_externals 1 [(''r'', 10)] (tree_with [Some 1]) = Inr s1
           \<and> container_at s1 1 = Some (Some 0)
           \<and> setProps_all example_externals 1 [[(''r'', 10)], [(''r'', 20), (''cx'', 5)]]
                (tree_with [Some 1]) = Inr s'
           \<and> container_at s' 1 = container_at s1 1
           \<and> trace s' = [DefinePropertiesInvoked 1 0]
           \<and> containers s' = [[(''r'', 20), (''cx'', 5), (''r'', 10)]]"
  using setProps_container_created_once [of "tree_with [Some 1]" 1 "leaf 1" example_externals
      "[(''r'', 10)]" "[[(''r'', 20), (''cx'', 5)]]"]
  by (simp add: tree_with_def leaf_def JsiDomNode_ctor_def example_externals_def
      defineProperties_base_def)

text \<open>
  C7. A call of \<open>setProps\<close> that returns leaves the children of every node of the
  store as they were, whatever the store was (with or without children) and whatever
  the batch is.
\<close>

theorem setProps_keeps_children:
  assumes "setProps X this b s = Inr s'"
  shows "\<forall>a. children_at s' a = children_at s a"
proof (cases "nodes s this")
  case None
  then show ?thesis using assms by (simp add: setProps_def)
next
  case (Some n)
  show ?thesis
  proof (cases "m_propsContainer n")
    case None
    then show ?thesis
      using assms Some setProps_first [OF Some None, of X b]
      by (auto simp add: children_at_def)
  next
    case (Some p)
    then show ?thesis
      using assms \<open>nodes s this = Some n\<close>
      by (auto simp add: setProps_def initPropsContainer_def children_at_def split: if_splits)
  qed
qed

theorem setProps_keeps_children_witness:
  "\<exists>s'. setProps example_externals 0 [(''r'', 20)] (tree_with [Some 1, Some 2]) = Inr s'
        \<and> (\<forall>a. children_at s' a = children_at (tree_with [Some 1, Some 2]) a)"
proof -
  obtain s' where
    r: "setProps example_externals 0 [(''r'', 20)] (tree_with [Some 1, Some 2]) = Inr s'"
    by (simp add: setProps_def initPropsContainer_def tree_with_def JsiDomNode_ctor_def)
  from setProps_keeps_children [OF r] show ?thesis
    using r by blast
qed

end
